theory Spec2Isabelle
  imports Complex_Main
begin

section \<open>Apple Catcher: data model\<close>

text \<open>
  The program is \<^verbatim>\<open>src/components/AppleCatcherGame.tsx\<close>: the class \<^verbatim>\<open>GameScene\<close>
  (a Phaser scene) and the React component \<^verbatim>\<open>AppleCatcherGame\<close> that hosts it.

  JavaScript numbers are modelled by their mathematical values: the frame clock and the
  coordinates are \<open>real\<close>, the score is a \<open>nat\<close> (it starts at 0 and only ever has 1
  added), and \<open>appleInterval\<close> is an \<open>int\<close> (it starts at 1500 and only ever has 10
  subtracted). All constants of the program are small integers.

  A Phaser sprite is an object with an identity. The model gives every sprite the number
  \<open>sid\<close> under which it was created; the scene's \<open>spriteCount\<close> is the number of sprites
  created so far. Display size and tint are presentation only and are left out.
\<close>

datatype error = TypeError

record sprite =
  sid :: nat
  sx :: real
  sy :: real
  velocityX :: real
  velocityY :: real

record cursorKeys =
  left_isDown :: bool
  right_isDown :: bool

text \<open>The two data fields of \<^verbatim>\<open>interface GameData\<close> (its \<^verbatim>\<open>restart\<close> callback is
  \<open>gameData_restart\<close> below).\<close>

record gameData =
  gd_score :: nat
  gd_gameOver :: bool

text \<open>The configuration object handed to \<^verbatim>\<open>this.tweens.add\<close>; its target is the plate.\<close>

record tween =
  scaleY :: real
  duration :: nat
  yoyo :: bool

text \<open>
  The fields of \<^verbatim>\<open>GameScene\<close>. The three fields declared with \<^verbatim>\<open>?\<close> are undefined
  (\<open>None\<close>) until \<^verbatim>\<open>create()\<close> has run; every access \<^verbatim>\<open>this.f!\<close> to an undefined field
  throws a \<open>TypeError\<close> at run time; a method that throws is modelled as returning
  \<open>Inl TypeError\<close>, and a run stops there. The last three fields are the state of the Phaser
  systems the scene talks to: whether the Arcade physics world is paused
  (\<^verbatim>\<open>physics.pause()\<close>, \<^verbatim>\<open>physics.resume()\<close>), the tweens added so far, and the sprite
  counter.
\<close>

record scene =
  plate :: "sprite option"
  apples :: "sprite list option"
  cursors :: "cursorKeys option"
  score :: nat
  gameOver :: bool
  gameData :: "gameData option"
  lastAppleTime :: real
  appleInterval :: int
  physicsPaused :: bool
  tweens :: "tween list"
  spriteCount :: nat

section \<open>The scene's methods\<close>

text \<open>The field initialisers of the class: the scene object right after its constructor.\<close>

definition GameScene_new :: scene where
  "GameScene_new =
     \<lparr>plate = None, apples = None, cursors = None, score = 0, gameOver = False,
      gameData = None, lastAppleTime = 0, appleInterval = 1500,
      physicsPaused = False, tweens = [], spriteCount = 0\<rparr>"

definition init :: "scene \<Rightarrow> gameData \<Rightarrow> scene" where
  "init s data = s\<lparr>gameData := Some data, score := 0, gameOver := False, lastAppleTime := 0\<rparr>"

definition updateGameState :: "scene \<Rightarrow> scene" where
  "updateGameState s =
     (case gameData s of
        None \<Rightarrow> s
      | Some d \<Rightarrow> s\<lparr>gameData := Some (d\<lparr>gd_score := score s, gd_gameOver := gameOver s\<rparr>)\<rparr>)"

text \<open>\<^verbatim>\<open>this.physics.add.sprite(x, y, key)\<close>: a new sprite at rest, and the counter moves on.\<close>

definition add_sprite :: "scene \<Rightarrow> real \<Rightarrow> real \<Rightarrow> sprite \<times> scene" where
  "add_sprite s px py =
     (\<lparr>sid = spriteCount s, sx = px, sy = py, velocityX = 0, velocityY = 0\<rparr>,
      s\<lparr>spriteCount := Suc (spriteCount s)\<rparr>)"

definition create :: "scene \<Rightarrow> scene" where
  "create s =
     (let (p, s1) = add_sprite s 400 550;
          s2 = s1\<lparr>plate := Some p\<rparr>;
          s3 = s2\<lparr>apples := Some []\<rparr>;
          s4 = s3\<lparr>cursors := Some \<lparr>left_isDown = False, right_isDown = False\<rparr>\<rparr>
      in updateGameState s4)"

text \<open>
  \<^verbatim>\<open>this.apples.add(apple)\<close>. The group is a physics group made by
  \<^verbatim>\<open>this.physics.add.group()\<close> with no configuration, and a physics group applies its
  defaults to the body of every sprite it is given; among the defaults are the velocities
  0 on both axes. The sprite therefore enters the group at rest, whatever velocity was
  set on it before.
\<close>

definition group_add :: "sprite list \<Rightarrow> sprite \<Rightarrow> sprite list" where
  "group_add as a = as @ [a\<lparr>velocityX := 0, velocityY := 0\<rparr>]"

text \<open>\<^verbatim>\<open>spawnApple()\<close>; \<open>rnd\<close> is the value \<^verbatim>\<open>Phaser.Math.Between(50, 750)\<close> returned.\<close>

definition spawnApple :: "scene \<Rightarrow> int \<Rightarrow> error + scene" where
  "spawnApple s rnd =
     (let (apple, s1) = add_sprite s (real_of_int rnd) (- 50);
          apple1 = apple\<lparr>velocityY := 150 + real (score s1) * 2\<rparr>
      in case apples s1 of
           None \<Rightarrow> Inl TypeError
         | Some as \<Rightarrow> Inr (s1\<lparr>apples := Some (group_add as apple1)\<rparr>))"

text \<open>\<^verbatim>\<open>catchApple(plate, apple)\<close>; the apple is given by its identity. \<^verbatim>\<open>apple.destroy()\<close>
  takes the sprite out of every group that holds it.\<close>

definition catchApple :: "scene \<Rightarrow> nat \<Rightarrow> scene" where
  "catchApple s a =
     (let s1 = s\<lparr>apples := map_option (filter (\<lambda>b. sid b \<noteq> a)) (apples s)\<rparr>;
          s2 = s1\<lparr>score := score s1 + 1\<rparr>;
          s3 = updateGameState s2
      in s3\<lparr>tweens := tweens s3 @ [\<lparr>scaleY = 12 / 10, duration = 100, yoyo = True\<rparr>]\<rparr>)"

definition endGame :: "scene \<Rightarrow> scene" where
  "endGame s = updateGameState (s\<lparr>gameOver := True, physicsPaused := True\<rparr>)"

definition restart :: "scene \<Rightarrow> error + scene" where
  "restart s =
     (let s1 = s\<lparr>score := 0, gameOver := False, lastAppleTime := 0, appleInterval := 1500\<rparr>
      in case apples s1 of
           None \<Rightarrow> Inl TypeError
         | Some as \<Rightarrow>
             (let s2 = s1\<lparr>apples := Some []\<rparr>
              in case plate s2 of
                   None \<Rightarrow> Inl TypeError
                 | Some p \<Rightarrow>
                     (let p1 = p\<lparr>sx := 400, sy := 550\<rparr>;
                          p2 = p1\<lparr>velocityX := 0, velocityY := 0\<rparr>;
                          s3 = s2\<lparr>plate := Some p2\<rparr>;
                          s4 = s3\<lparr>physicsPaused := False\<rparr>
                      in Inr (updateGameState s4))))"

text \<open>The three parts of \<^verbatim>\<open>update(time)\<close> after its guard, in the order of the source:
  the plate's velocity from the arrow keys, the timed spawn with the shrinking interval,
  and the \<^verbatim>\<open>forEach\<close> over the apples that ends the game for each one below the screen.\<close>

definition movePlate :: "scene \<Rightarrow> error + scene" where
  "movePlate s =
     (case cursors s of
        None \<Rightarrow> Inl TypeError
      | Some c \<Rightarrow>
          (case plate s of
             None \<Rightarrow> Inl TypeError
           | Some p \<Rightarrow>
               Inr (s\<lparr>plate := Some (p\<lparr>velocityX :=
                      (if left_isDown c then - 300 else if right_isDown c then 300 else 0)\<rparr>)\<rparr>)))"

definition spawnTimed :: "scene \<Rightarrow> real \<Rightarrow> int \<Rightarrow> error + scene" where
  "spawnTimed s time rnd =
     (if time - lastAppleTime s > real_of_int (appleInterval s) then
        (case spawnApple s rnd of
           Inl e \<Rightarrow> Inl e
         | Inr s1 \<Rightarrow>
             (let s2 = s1\<lparr>lastAppleTime := time\<rparr>
              in Inr (if appleInterval s2 > 500
                      then s2\<lparr>appleInterval := appleInterval s2 - 10\<rparr> else s2)))
      else Inr s)"

fun forEach_fallen :: "sprite list \<Rightarrow> scene \<Rightarrow> scene" where
  "forEach_fallen [] s = s"
| "forEach_fallen (a # as) s = forEach_fallen as (if sy a > 600 then endGame s else s)"

definition checkFallen :: "scene \<Rightarrow> error + scene" where
  "checkFallen s =
     (case apples s of None \<Rightarrow> Inl TypeError | Some as \<Rightarrow> Inr (forEach_fallen as s))"

definition update :: "scene \<Rightarrow> real \<Rightarrow> int \<Rightarrow> error + scene" where
  "update s time rnd =
     (if gameOver s then Inr s
      else case movePlate s of
             Inl e \<Rightarrow> Inl e
           | Inr s1 \<Rightarrow>
               (case spawnTimed s1 time rnd of
                  Inl e \<Rightarrow> Inl e
                | Inr s2 \<Rightarrow> checkFallen s2))"

section \<open>The host runtime\<close>

text \<open>
  What Phaser does between two calls of the scene's methods, as far as the scene relies
  on it (the source's comments: velocities are pixels per second; the configuration has
  no gravity; \<^verbatim>\<open>physics.pause()\<close> stops all movement and collisions; the overlap collider
  set up in \<^verbatim>\<open>create()\<close> calls \<^verbatim>\<open>catchApple\<close> for an apple of the group that overlaps
  the plate). Which apple overlaps, how much time passes and which keys are down are
  inputs.
\<close>

definition moveSprite :: "real \<Rightarrow> sprite \<Rightarrow> sprite" where
  "moveSprite delta a =
     a\<lparr>sx := sx a + velocityX a * delta / 1000, sy := sy a + velocityY a * delta / 1000\<rparr>"

text \<open>
  \<^verbatim>\<open>setCollideWorldBounds(true)\<close> on the plate: a sprite of 100 by 20 pixels, positioned by
  its centre, in the world of 800 by 600 pixels. A body that has left the world on one
  side is put back at that side, and its velocity on that axis is multiplied by its
  bounce, which is 0.
\<close>

definition collideWorldBounds :: "sprite \<Rightarrow> sprite" where
  "collideWorldBounds p =
     (let p1 = (if sx p - 50 < 0 then p\<lparr>sx := 50, velocityX := 0\<rparr>
                else if sx p + 50 > 800 then p\<lparr>sx := 750, velocityX := 0\<rparr>
                else p)
      in if sy p1 - 10 < 0 then p1\<lparr>sy := 10, velocityY := 0\<rparr>
         else if sy p1 + 10 > 600 then p1\<lparr>sy := 590, velocityY := 0\<rparr>
         else p1)"

definition worldStep :: "scene \<Rightarrow> real \<Rightarrow> scene" where
  "worldStep s delta =
     (if physicsPaused s then s
      else s\<lparr>plate := map_option (collideWorldBounds \<circ> moveSprite delta) (plate s),
             apples := map_option (map (moveSprite delta)) (apples s)\<rparr>)"

definition overlap :: "scene \<Rightarrow> nat \<Rightarrow> scene" where
  "overlap s a =
     (if physicsPaused s then s
      else case apples s of
             None \<Rightarrow> s
           | Some as \<Rightarrow> if a \<in> sid ` set as then catchApple s a else s)"

definition keyInput :: "scene \<Rightarrow> bool \<Rightarrow> bool \<Rightarrow> scene" where
  "keyInput s l r =
     s\<lparr>cursors := map_option (\<lambda>c. c\<lparr>left_isDown := l, right_isDown := r\<rparr>) (cursors s)\<rparr>"

datatype event =
    Update real int
  | Overlap nat
  | WorldStep real
  | KeyInput bool bool
  | Restart

fun step :: "scene \<Rightarrow> event \<Rightarrow> error + scene" where
  "step s (Update time rnd) = update s time rnd"
| "step s (Overlap a) = Inr (overlap s a)"
| "step s (WorldStep delta) = Inr (worldStep s delta)"
| "step s (KeyInput l r) = Inr (keyInput s l r)"
| "step s Restart = restart s"

fun run :: "scene \<Rightarrow> event list \<Rightarrow> error + scene" where
  "run s [] = Inr s"
| "run s (e # es) = (case step s e of Inl err \<Rightarrow> Inl err | Inr s1 \<Rightarrow> run s1 es)"

text \<open>The scene as Phaser starts it: constructed, \<^verbatim>\<open>init(data)\<close>, then \<^verbatim>\<open>create()\<close>.\<close>

definition start :: "gameData \<Rightarrow> scene" where
  "start data = create (init GameScene_new data)"

text \<open>\<^verbatim>\<open>this.apples.children.entries\<close>, read without failing (empty while there is no group).\<close>

definition entries :: "scene \<Rightarrow> sprite list" where
  "entries s = (case apples s of None \<Rightarrow> [] | Some as \<Rightarrow> as)"

section \<open>The React shell\<close>





section \<open>Invariant of the running scene\<close>

text \<open>
  What holds of every state the scene reaches after \<open>start\<close>: the optional fields are
  set and the plate is the first sprite; the shared data object is there; the physics
  world is paused exactly while the game is over; the spawn interval is a multiple of
  10 between 500 and 1500; the apples of the group are distinct sprites, all created
  before the counter's current value.
\<close>

definition scene_inv :: "scene \<Rightarrow> bool" where
  "scene_inv s \<longleftrightarrow>
     (\<exists>p. plate s = Some p \<and> sid p = 0) \<and> apples s \<noteq> None \<and> cursors s \<noteq> None \<and>
     gameData s \<noteq> None \<and>
     physicsPaused s = gameOver s \<and>
     500 \<le> appleInterval s \<and> appleInterval s \<le> 1500 \<and> appleInterval s mod 10 = 0 \<and>
     distinct (map sid (entries s)) \<and> (\<forall>a \<in> set (entries s). sid a < spriteCount s)"

section \<open>Example sessions\<close>

text \<open>
  A session used to instantiate the theorems below. The first frame, at 1600 ms, spawns
  apple 1 at x = 100. Four seconds pass, the left key goes down, and the frame at
  3200 ms spawns apple 2 at x = 300. Both apples are at rest where they were spawned.
\<close>

definition data0 :: gameData where
  "data0 = \<lparr>gd_score = 0, gd_gameOver = False\<rparr>"

definition session_first :: "event list" where
  "session_first = [Update 1600 100]"

definition play_on :: "event list" where
  "play_on = [WorldStep 4000, KeyInput True False, Update 3200 300]"


text \<open>A catch of apple 1, and a restart followed by the next frame.\<close>

definition catch_first :: "event list" where
  "catch_first = [Overlap 1]"

definition play_again :: "event list" where
  "play_again = [Restart, Update 1616 60]"

definition state_first :: scene where
  "state_first =
     \<lparr>plate = Some \<lparr>sid = 0, sx = 400, sy = 550, velocityX = 0, velocityY = 0\<rparr>,
      apples = Some [\<lparr>sid = 1, sx = 100, sy = - 50, velocityX = 0, velocityY = 0\<rparr>],
      cursors = Some \<lparr>left_isDown = False, right_isDown = False\<rparr>,
      score = 0, gameOver = False,
      gameData = Some \<lparr>gd_score = 0, gd_gameOver = False\<rparr>,
      lastAppleTime = 1600, appleInterval = 1490, physicsPaused = False,
      tweens = [], spriteCount = 2\<rparr>"

definition state_playing :: scene where
  "state_playing =
     \<lparr>plate = Some \<lparr>sid = 0, sx = 400, sy = 550, velocityX = - 300, velocityY = 0\<rparr>,
      apples = Some [\<lparr>sid = 1, sx = 100, sy = - 50, velocityX = 0, velocityY = 0\<rparr>,
                     \<lparr>sid = 2, sx = 300, sy = - 50, velocityX = 0, velocityY = 0\<rparr>],
      cursors = Some \<lparr>left_isDown = True, right_isDown = False\<rparr>,
      score = 0, gameOver = False,
      gameData = Some \<lparr>gd_score = 0, gd_gameOver = False\<rparr>,
      lastAppleTime = 3200, appleInterval = 1480, physicsPaused = False,
      tweens = [], spriteCount = 3\<rparr>"

definition state_again :: scene where
  "state_again =
     \<lparr>plate = Some \<lparr>sid = 0, sx = 400, sy = 550, velocityX = 0, velocityY = 0\<rparr>,
      apples = Some [\<lparr>sid = 2, sx = 60, sy = - 50, velocityX = 0, velocityY = 0\<rparr>],
      cursors = Some \<lparr>left_isDown = False, right_isDown = False\<rparr>,
      score = 0, gameOver = False,
      gameData = Some \<lparr>gd_score = 0, gd_gameOver = False\<rparr>,
      lastAppleTime = 1616, appleInterval = 1490, physicsPaused = False,
      tweens = [], spriteCount = 3\<rparr>"



section \<open>Auxiliary facts\<close>

lemma inv_start: "scene_inv (start d)"
  by (simp add: scene_inv_def start_def create_def init_def GameScene_new_def
      updateGameState_def add_sprite_def entries_def)

lemma endGame_idem: "endGame (endGame s) = endGame s"
  by (simp add: endGame_def updateGameState_def split: option.splits)

lemma forEach_fallen_endGame: "forEach_fallen as (endGame s) = endGame s"
  by (induction as) (simp_all add: endGame_idem)

lemma forEach_fallen_eq:
  "forEach_fallen as s = (if \<exists>a \<in> set as. sy a > 600 then endGame s else s)"
  by (induction as arbitrary: s) (auto simp: forEach_fallen_endGame endGame_idem)

lemma inv_endGame: "scene_inv s \<Longrightarrow> scene_inv (endGame s)"
  by (auto simp: scene_inv_def endGame_def updateGameState_def entries_def split: option.splits)

lemma inv_restart: "scene_inv s \<Longrightarrow> \<exists>s'. restart s = Inr s' \<and> scene_inv s'"
  by (auto simp: scene_inv_def restart_def updateGameState_def entries_def Let_def split: option.splits)

lemma inv_overlap: "scene_inv s \<Longrightarrow> scene_inv (overlap s a)"
  by (auto simp: scene_inv_def overlap_def catchApple_def updateGameState_def entries_def Let_def distinct_map_filter split: option.splits)

lemma sid_moved:
  "sid (moveSprite delta a) = sid a" "sid (collideWorldBounds a) = sid a"
  by (simp_all add: moveSprite_def collideWorldBounds_def Let_def)

lemma inv_worldStep: "scene_inv s \<Longrightarrow> scene_inv (worldStep s delta)"
  by (auto simp: scene_inv_def worldStep_def sid_moved entries_def comp_def split: option.splits)

lemma inv_keyInput: "scene_inv s \<Longrightarrow> scene_inv (keyInput s l r)"
  by (auto simp: scene_inv_def keyInput_def entries_def split: option.splits)

lemma inv_movePlate: "scene_inv s \<Longrightarrow> \<exists>s'. movePlate s = Inr s' \<and> scene_inv s'"
  by (auto simp: scene_inv_def movePlate_def entries_def split: option.splits)

lemma spawnApple_Inr:
  "apples s = Some as \<Longrightarrow>
   spawnApple s rnd = Inr (s\<lparr>spriteCount := Suc (spriteCount s),
      apples := Some (as @ [\<lparr>sid = spriteCount s, sx = real_of_int rnd, sy = - 50,
                              velocityX = 0, velocityY = 0\<rparr>])\<rparr>)"
  by (simp add: spawnApple_def add_sprite_def group_add_def)

lemma inv_spawnApple: "scene_inv s \<Longrightarrow> \<exists>s'. spawnApple s r = Inr s' \<and> scene_inv s'"
proof -
  assume w: "scene_inv s"
  then obtain as where as: "apples s = Some as" by (auto simp: scene_inv_def)
  have "\<forall>a \<in> set as. sid a < spriteCount s" "distinct (map sid as)"
    using w as by (auto simp: scene_inv_def entries_def)
  then show ?thesis using w
    by (auto simp: spawnApple_Inr[OF as] scene_inv_def entries_def less_Suc_eq)
qed

lemma inv_lastAppleTime: "scene_inv s \<Longrightarrow> scene_inv (s\<lparr>lastAppleTime := t\<rparr>)"
  by (simp add: scene_inv_def entries_def)

lemma inv_decay:
  "scene_inv s \<Longrightarrow> scene_inv (if appleInterval s > 500 then s\<lparr>appleInterval := appleInterval s - 10\<rparr> else s)"
proof (cases "appleInterval s > 500")
  case False
  then show "scene_inv s \<Longrightarrow> ?thesis" by simp
next
  case True
  assume w: "scene_inv s"
  then have m: "appleInterval s mod 10 = 0" and u: "appleInterval s \<le> 1500"
    by (simp_all add: scene_inv_def)
  from m True have "510 \<le> appleInterval s" by presburger
  moreover from m have "(appleInterval s - 10) mod 10 = 0" by presburger
  ultimately show ?thesis using w u True by (simp add: scene_inv_def entries_def)
qed

lemma inv_spawnTimed: "scene_inv s \<Longrightarrow> \<exists>s'. spawnTimed s t r = Inr s' \<and> scene_inv s'"
proof (cases "t - lastAppleTime s > real_of_int (appleInterval s)")
  case False
  then show "scene_inv s \<Longrightarrow> ?thesis" by (simp add: spawnTimed_def)
next
  case True
  assume "scene_inv s"
  from inv_spawnApple[OF this, of r] obtain s1 where s1: "spawnApple s r = Inr s1" "scene_inv s1" by blast
  from inv_decay[OF inv_lastAppleTime[OF s1(2), of t]] s1(1) True
  show ?thesis by (simp add: spawnTimed_def Let_def)
qed

lemma inv_checkFallen: "scene_inv s \<Longrightarrow> \<exists>s'. checkFallen s = Inr s' \<and> scene_inv s'"
proof -
  assume w: "scene_inv s"
  then obtain as where "apples s = Some as" by (auto simp: scene_inv_def)
  then show ?thesis using w by (simp add: checkFallen_def forEach_fallen_eq inv_endGame)
qed

lemma inv_update: "scene_inv s \<Longrightarrow> \<exists>s'. update s t r = Inr s' \<and> scene_inv s'"
proof (cases "gameOver s")
  case True
  then show "scene_inv s \<Longrightarrow> ?thesis" by (simp add: update_def)
next
  case False
  assume "scene_inv s"
  from inv_movePlate[OF this] obtain s1 where s1: "movePlate s = Inr s1" "scene_inv s1" by blast
  from inv_spawnTimed[OF s1(2), of t r] obtain s2 where s2: "spawnTimed s1 t r = Inr s2" "scene_inv s2" by blast
  from inv_checkFallen[OF s2(2)] s1(1) s2(1) False show ?thesis by (simp add: update_def)
qed

lemma inv_step: "scene_inv s \<Longrightarrow> \<exists>s'. step s e = Inr s' \<and> scene_inv s'"
  by (cases e) (simp_all add: inv_update inv_overlap inv_worldStep inv_keyInput inv_restart)

lemma inv_run: "scene_inv s \<Longrightarrow> \<exists>s'. run s es = Inr s' \<and> scene_inv s'"
proof (induction es arbitrary: s)
  case Nil
  then show ?case by simp
next
  case (Cons e es)
  from inv_step[OF Cons.prems] obtain s1 where "step s e = Inr s1" "scene_inv s1" by blast
  with Cons.IH[of s1] show ?case by simp
qed

lemma reachable_inv: "run (start d) es = Inr s \<Longrightarrow> scene_inv s"
  using inv_run[OF inv_start, of d es] by simp


lemma movePlate_frame: "movePlate s = Inr s1 \<Longrightarrow> \<exists>p. s1 = s\<lparr>plate := Some p\<rparr>"
  by (auto simp: movePlate_def split: option.splits)

lemma spawnTimed_frame:
  assumes "apples s = Some as" and "spawnTimed s t r = Inr s2"
  shows "s2 = (if t - lastAppleTime s > real_of_int (appleInterval s)
               then s\<lparr>spriteCount := Suc (spriteCount s),
                      apples := Some (as @ [\<lparr>sid = spriteCount s, sx = real_of_int r, sy = - 50,
                              velocityX = 0, velocityY = 0\<rparr>]),
                      lastAppleTime := t,
                      appleInterval := (if appleInterval s > 500 then appleInterval s - 10
                                        else appleInterval s)\<rparr>
               else s)"
  using assms(2) by (auto simp: spawnTimed_def spawnApple_Inr[OF assms(1)] Let_def split: if_splits)

lemma checkFallen_eq:
  "apples s = Some as \<Longrightarrow>
   checkFallen s = Inr (if \<exists>a \<in> set as. sy a > 600 then endGame s else s)"
  by (simp add: checkFallen_def forEach_fallen_eq)

lemma endGame_frame:
  "plate (endGame s) = plate s" "apples (endGame s) = apples s" "cursors (endGame s) = cursors s"
  "score (endGame s) = score s" "gameOver (endGame s)" "lastAppleTime (endGame s) = lastAppleTime s"
  "appleInterval (endGame s) = appleInterval s" "physicsPaused (endGame s)"
  "tweens (endGame s) = tweens s" "spriteCount (endGame s) = spriteCount s"
  by (simp_all add: endGame_def updateGameState_def split: option.splits)

lemma update_active:
  assumes "scene_inv s" and "\<not> gameOver s"
  shows "\<exists>p as s2. apples s = Some as \<and>
           spawnTimed (s\<lparr>plate := Some p\<rparr>) t r = Inr s2 \<and> scene_inv s2 \<and>
           update s t r = Inr (if \<exists>a \<in> set (entries s2). sy a > 600 then endGame s2 else s2)"
proof -
  from inv_movePlate[OF assms(1)] obtain s1 where s1: "movePlate s = Inr s1" "scene_inv s1" by blast
  from movePlate_frame[OF s1(1)] obtain p where p: "s1 = s\<lparr>plate := Some p\<rparr>" by blast
  from inv_spawnTimed[OF s1(2), of t r] obtain s2 where s2: "spawnTimed s1 t r = Inr s2" "scene_inv s2" by blast
  from s2(2) obtain bs where bs: "apples s2 = Some bs" by (auto simp: scene_inv_def)
  from assms(1) obtain as where as: "apples s = Some as" by (auto simp: scene_inv_def)
  have "update s t r = Inr (if \<exists>a \<in> set (entries s2). sy a > 600 then endGame s2 else s2)"
    using assms(2) s1(1) s2(1) checkFallen_eq[OF bs] bs by (simp add: update_def entries_def)
  with as s2 p show ?thesis by blast
qed

lemma update_active_fields:
  assumes "scene_inv s" and "\<not> gameOver s"
  shows "\<exists>s'. update s t r = Inr s' \<and> scene_inv s' \<and>
           score s' = score s \<and> cursors s' = cursors s \<and> tweens s' = tweens s \<and>
           (gameOver s' \<longleftrightarrow> (\<exists>a \<in> set (entries s). sy a > 600)) \<and>
           (if t - lastAppleTime s > real_of_int (appleInterval s)
            then entries s' = entries s @ [\<lparr>sid = spriteCount s, sx = real_of_int r, sy = - 50, velocityX = 0, velocityY = 0\<rparr>] \<and> lastAppleTime s' = t \<and>
                 spriteCount s' = Suc (spriteCount s) \<and>
                 appleInterval s' = (if appleInterval s > 500 then appleInterval s - 10
                                     else appleInterval s)
            else entries s' = entries s \<and> lastAppleTime s' = lastAppleTime s \<and>
                 spriteCount s' = spriteCount s \<and> appleInterval s' = appleInterval s)"
proof -
  from update_active[OF assms, of t r] obtain p as s2 where
    as: "apples s = Some as" and
    s2: "spawnTimed (s\<lparr>plate := Some p\<rparr>) t r = Inr s2" and w2: "scene_inv s2" and
    u: "update s t r = Inr (if \<exists>a \<in> set (entries s2). sy a > 600 then endGame s2 else s2)"
    by blast
  have as': "apples (s\<lparr>plate := Some p\<rparr>) = Some as" using as by simp
  note f = spawnTimed_frame[OF as' s2]
  define s' where "s' = (if \<exists>a \<in> set (entries s2). sy a > 600 then endGame s2 else s2)"
  have u': "update s t r = Inr s'" using u by (simp add: s'_def)
  have w: "scene_inv s'" using w2 by (simp add: inv_endGame s'_def)
  have fallen: "(\<exists>a \<in> set (entries s2). sy a > 600) \<longleftrightarrow> (\<exists>a \<in> set (entries s). sy a > 600)"
    using as by (subst f) (auto simp: entries_def)
  have g2: "\<not> gameOver s2" using assms(2) by (subst f) simp
  have go: "gameOver s' \<longleftrightarrow> (\<exists>a \<in> set (entries s). sy a > 600)"
    using g2 fallen by (simp add: endGame_frame s'_def)
  have e: "entries s' = entries s2" "score s' = score s2" "cursors s' = cursors s2"
    "tweens s' = tweens s2" "lastAppleTime s' = lastAppleTime s2"
    "spriteCount s' = spriteCount s2" "appleInterval s' = appleInterval s2"
    by (simp_all add: endGame_frame entries_def s'_def)
  have r: "score s2 = score s" "cursors s2 = cursors s" "tweens s2 = tweens s"
    by (subst f, simp)+
  have sp: "if t - lastAppleTime s > real_of_int (appleInterval s)
            then entries s2 = entries s @ [\<lparr>sid = spriteCount s, sx = real_of_int r, sy = - 50, velocityX = 0, velocityY = 0\<rparr>] \<and> lastAppleTime s2 = t \<and>
                 spriteCount s2 = Suc (spriteCount s) \<and>
                 appleInterval s2 = (if appleInterval s > 500 then appleInterval s - 10
                                     else appleInterval s)
            else entries s2 = entries s \<and> lastAppleTime s2 = lastAppleTime s \<and>
                 spriteCount s2 = spriteCount s \<and> appleInterval s2 = appleInterval s"
    using as by (subst (1 2 3 4 5 6 7 8) f) (simp add: entries_def)
  show ?thesis
    using u' w go e r sp
    by (cases "t - lastAppleTime s > real_of_int (appleInterval s)") simp_all
qed

lemma catchApple_frame:
  "plate (catchApple s a) = plate s" "cursors (catchApple s a) = cursors s"
  "gameOver (catchApple s a) = gameOver s" "lastAppleTime (catchApple s a) = lastAppleTime s"
  "appleInterval (catchApple s a) = appleInterval s"
  "physicsPaused (catchApple s a) = physicsPaused s"
  "spriteCount (catchApple s a) = spriteCount s"
  "score (catchApple s a) = score s + 1"
  "apples (catchApple s a) = map_option (filter (\<lambda>b. sid b \<noteq> a)) (apples s)"
  "entries (catchApple s a) = filter (\<lambda>b. sid b \<noteq> a) (entries s)"
  by (simp_all add: catchApple_def updateGameState_def entries_def Let_def split: option.splits)

lemma overlap_cases: "overlap s a = s \<or> overlap s a = catchApple s a"
  by (simp add: overlap_def split: option.splits)

lemma overlap_frame:
  "plate (overlap s a) = plate s" "cursors (overlap s a) = cursors s"
  "gameOver (overlap s a) = gameOver s" "lastAppleTime (overlap s a) = lastAppleTime s"
  "appleInterval (overlap s a) = appleInterval s"
  "physicsPaused (overlap s a) = physicsPaused s"
  "spriteCount (overlap s a) = spriteCount s"
  using overlap_cases[of s a] by (auto simp: catchApple_frame)


lemma worldStep_frame:
  "cursors (worldStep s dt) = cursors s" "score (worldStep s dt) = score s"
  "gameOver (worldStep s dt) = gameOver s" "lastAppleTime (worldStep s dt) = lastAppleTime s"
  "appleInterval (worldStep s dt) = appleInterval s"
  "physicsPaused (worldStep s dt) = physicsPaused s"
  "spriteCount (worldStep s dt) = spriteCount s"
  "entries (worldStep s dt) = (if physicsPaused s then entries s else map (moveSprite dt) (entries s))"
  by (simp_all add: worldStep_def entries_def split: option.splits)

lemma keyInput_frame:
  "plate (keyInput s l r) = plate s" "apples (keyInput s l r) = apples s"
  "score (keyInput s l r) = score s"
  "gameOver (keyInput s l r) = gameOver s" "lastAppleTime (keyInput s l r) = lastAppleTime s"
  "appleInterval (keyInput s l r) = appleInterval s"
  "physicsPaused (keyInput s l r) = physicsPaused s"
  "spriteCount (keyInput s l r) = spriteCount s"
  "entries (keyInput s l r) = entries s"
  by (simp_all add: keyInput_def entries_def)

lemma update_gameOver: "gameOver s \<Longrightarrow> update s t r = Inr s"
  by (simp add: update_def)

lemma step_appleInterval:
  assumes "scene_inv s" and "e \<noteq> Restart"
  shows "\<exists>s'. step s e = Inr s' \<and>
           (appleInterval s' = appleInterval s \<or>
            appleInterval s' = appleInterval s - 10 \<and> \<not> gameOver s \<and>
            length (entries s') = Suc (length (entries s)))"
proof (cases e)
  case (Update t r)
  show ?thesis
  proof (cases "gameOver s")
    case True
    then show ?thesis using Update by (simp add: update_gameOver)
  next
    case False
    from update_active_fields[OF assms(1) False, of t r] obtain s' where
      "update s t r = Inr s'"
      "if t - lastAppleTime s > real_of_int (appleInterval s)
            then entries s' = entries s @ [\<lparr>sid = spriteCount s, sx = real_of_int r, sy = - 50, velocityX = 0, velocityY = 0\<rparr>] \<and> lastAppleTime s' = t \<and>
                 spriteCount s' = Suc (spriteCount s) \<and>
                 appleInterval s' = (if appleInterval s > 500 then appleInterval s - 10
                                     else appleInterval s)
            else entries s' = entries s \<and> lastAppleTime s' = lastAppleTime s \<and>
                 spriteCount s' = spriteCount s \<and> appleInterval s' = appleInterval s"
      by blast
    then show ?thesis using Update False by (auto split: if_splits)
  qed
qed (use assms(2) in \<open>simp_all add: overlap_frame worldStep_frame keyInput_frame\<close>)

lemma run_appleInterval:
  assumes "scene_inv s" and "Restart \<notin> set fs"
  shows "\<exists>s'. run s fs = Inr s' \<and> appleInterval s' \<le> appleInterval s"
  using assms
proof (induction fs arbitrary: s)
  case Nil
  then show ?case by simp
next
  case (Cons e fs)
  then have ne: "e \<noteq> Restart" and nf: "Restart \<notin> set fs" by auto
  from step_appleInterval[OF Cons.prems(1) ne] obtain s1 where
    s1: "step s e = Inr s1" "appleInterval s1 \<le> appleInterval s" by auto
  from inv_step[OF Cons.prems(1), of e] s1(1) have "scene_inv s1" by simp
  from Cons.IH[OF this nf] s1 show ?case by auto
qed



lemma restart_inv_eq:
  assumes "scene_inv s"
  shows "restart s = Inr (s\<lparr>score := 0, gameOver := False, lastAppleTime := 0,
            appleInterval := 1500, apples := Some [],
            plate := Some \<lparr>sid = 0, sx = 400, sy = 550, velocityX = 0, velocityY = 0\<rparr>,
            physicsPaused := False,
            gameData := Some \<lparr>gd_score = 0, gd_gameOver = False\<rparr>\<rparr>)"
proof -
  from assms obtain p as g where
    "plate s = Some p" "sid p = 0" "apples s = Some as" "gameData s = Some g"
    by (auto simp: scene_inv_def)
  then show ?thesis
    by (simp add: restart_def updateGameState_def Let_def)
qed

lemma start_eq:
  "start d = \<lparr>plate = Some \<lparr>sid = 0, sx = 400, sy = 550, velocityX = 0, velocityY = 0\<rparr>,
      apples = Some [], cursors = Some \<lparr>left_isDown = False, right_isDown = False\<rparr>,
      score = 0, gameOver = False, gameData = Some \<lparr>gd_score = 0, gd_gameOver = False\<rparr>,
      lastAppleTime = 0, appleInterval = 1500, physicsPaused = False, tweens = [],
      spriteCount = 1\<rparr>"
  by (simp add: start_def create_def init_def GameScene_new_def updateGameState_def add_sprite_def)





lemma step_old_apples:
  assumes "scene_inv s" and "step s e = Inr s'"
  shows "spriteCount s \<le> spriteCount s' \<and>
         (\<forall>b \<in> set (entries s'). sid b < spriteCount s \<longrightarrow>
            (\<exists>a \<in> set (entries s). sid a = sid b \<and> velocityY a = velocityY b))"
proof (cases e)
  case (Update t r)
  show ?thesis
  proof (cases "gameOver s")
    case True
    then show ?thesis using Update assms(2) by (auto simp: update_gameOver)
  next
    case False
    from update_active_fields[OF assms(1) False, of t r] assms(2) Update
    have "if t - lastAppleTime s > real_of_int (appleInterval s)
            then entries s' = entries s @ [\<lparr>sid = spriteCount s, sx = real_of_int r, sy = - 50, velocityX = 0, velocityY = 0\<rparr>] \<and> spriteCount s' = Suc (spriteCount s)
            else entries s' = entries s \<and> spriteCount s' = spriteCount s"
      by (auto split: if_splits)
    then show ?thesis by (auto simp: split: if_splits)
  qed
next
  case (Overlap a)
  then show ?thesis
    using assms(2) overlap_cases[of s a] by (auto simp: catchApple_frame)
next
  case (WorldStep dt)
  then show ?thesis
    using assms(2) by (fastforce simp: worldStep_frame moveSprite_def split: if_splits)
next
  case (KeyInput l r)
  then show ?thesis using assms(2) by (auto simp: keyInput_frame)
next
  case Restart
  then show ?thesis using assms(2) by (auto simp: restart_inv_eq[OF assms(1)] entries_def)
qed

lemma run_gone:
  assumes "scene_inv s" and "a < spriteCount s" and "a \<notin> sid ` set (entries s)"
  shows "\<exists>s'. run s fs = Inr s' \<and> a \<notin> sid ` set (entries s')"
  using assms
proof (induction fs arbitrary: s)
  case Nil
  then show ?case by simp
next
  case (Cons e fs)
  from inv_step[OF Cons.prems(1), of e] obtain s1 where s1: "step s e = Inr s1" "scene_inv s1" by blast
  note old = step_old_apples[OF Cons.prems(1) s1(1)]
  have lt: "a < spriteCount s1" using old Cons.prems(2) by simp
  have "a \<notin> sid ` set (entries s1)"
  proof
    assume "a \<in> sid ` set (entries s1)"
    then obtain b where b: "b \<in> set (entries s1)" "sid b = a" by auto
    with old Cons.prems(2) obtain c where "c \<in> set (entries s)" "sid c = sid b" by auto
    with b(2) Cons.prems(3) show False by (metis imageI)
  qed
  note lt this
  from Cons.IH[OF s1(2) this] s1(1) show ?case by simp
qed

lemma update_spawns:
  assumes "scene_inv s" and "\<not> gameOver s"
    and "t - lastAppleTime s > real_of_int (appleInterval s)"
  shows "\<exists>s'. update s t r = Inr s' \<and>
           length (entries s') = Suc (length (entries s)) \<and>
           appleInterval s' = (if appleInterval s > 500 then appleInterval s - 10
                               else appleInterval s)"
  using update_active_fields[OF assms(1,2), of t r] assms(3) by auto

section \<open>The example session, evaluated\<close>

lemmas run_defs = updateGameState_def add_sprite_def spawnApple_def group_add_def catchApple_def
  endGame_def restart_def movePlate_def spawnTimed_def checkFallen_def update_def moveSprite_def
  collideWorldBounds_def worldStep_def overlap_def keyInput_def Let_def

lemma update_start_first: "update (start data0) 1600 100 = Inr state_first"
  by (simp add: start_eq state_first_def run_defs)

lemma run_session_first: "run (start data0) session_first = Inr state_first"
  by (simp add: session_first_def update_start_first)

lemma run_play_on: "run state_first play_on = Inr state_playing"
  by (simp add: play_on_def state_first_def state_playing_def run_defs)


lemma run_play_again: "run state_first play_again = Inr state_again"
  by (simp add: play_again_def state_first_def state_again_def run_defs)


lemma no_restart_examples:
  "Restart \<notin> set play_on" "Restart \<notin> set catch_first"
  by (simp_all add: play_on_def catch_first_def)

lemma state_first_fields:
  "\<not> gameOver state_first" "score state_first = 0" "appleInterval state_first = 1490"
  "lastAppleTime state_first = 1600"
  "entries state_first = [\<lparr>sid = 1, sx = 100, sy = - 50, velocityX = 0, velocityY = 0\<rparr>]"
  by (simp_all add: state_first_def entries_def)

section \<open>The properties\<close>

text \<open>
  C1. For every sequence of frame updates in a single session, the spawn interval
  \<open>appleInterval\<close> never goes below 500 ms and never increases; it only decreases, by
  10 ms per spawn, while the game is active, and \<open>restart\<close> resets it to its initial
  value 1500 ms.

  Stated for every state \<open>s\<close> the scene reaches after \<open>start\<close>: the interval is at least
  500; no sequence of events without a restart raises it; a single event other than a
  restart leaves it as it is or lowers it by exactly 10, the latter only while the game is
  not over and together with one more apple in the group; a frame of an active game whose
  spawn condition holds spawns one apple and lowers the interval by 10 unless it has
  reached 500; \<open>restart\<close> sets it to 1500.
\<close>

theorem appleInterval_floor_and_decay:
  assumes "run (start d) es = Inr s"
  shows "500 \<le> appleInterval s \<and>
         (\<forall>fs. Restart \<notin> set fs \<longrightarrow>
               (\<exists>s'. run s fs = Inr s' \<and> appleInterval s' \<le> appleInterval s)) \<and>
         (\<forall>e. e \<noteq> Restart \<longrightarrow>
               (\<exists>s'. step s e = Inr s' \<and>
                  (appleInterval s' = appleInterval s \<or>
                   appleInterval s' = appleInterval s - 10 \<and> \<not> gameOver s \<and>
                   length (entries s') = Suc (length (entries s))))) \<and>
         (\<forall>time rnd. \<not> gameOver s \<and> time - lastAppleTime s > real_of_int (appleInterval s) \<longrightarrow>
               (\<exists>s'. update s time rnd = Inr s' \<and>
                  length (entries s') = Suc (length (entries s)) \<and>
                  appleInterval s' = (if appleInterval s > 500 then appleInterval s - 10
                                      else appleInterval s))) \<and>
         (\<exists>s'. restart s = Inr s' \<and> appleInterval s' = 1500)"
proof -
  have w: "scene_inv s" by (rule reachable_inv[OF assms])
  have "500 \<le> appleInterval s" using w by (simp add: scene_inv_def)
  moreover have "\<exists>s'. restart s = Inr s' \<and> appleInterval s' = 1500"
    by (simp add: restart_inv_eq[OF w])
  moreover have "\<forall>time rnd. \<not> gameOver s \<and> time - lastAppleTime s > real_of_int (appleInterval s) \<longrightarrow>
               (\<exists>s'. update s time rnd = Inr s' \<and>
                  length (entries s') = Suc (length (entries s)) \<and>
                  appleInterval s' = (if appleInterval s > 500 then appleInterval s - 10
                                      else appleInterval s))"
    using update_spawns[OF w] by blast
  ultimately show ?thesis
    using run_appleInterval[OF w] step_appleInterval[OF w] by blast
qed

theorem appleInterval_floor_and_decay_witness:
  "run (start data0) session_first = Inr state_first \<and>
   500 \<le> appleInterval state_first \<and>
   Restart \<notin> set play_on \<and>
   run state_first play_on = Inr state_playing \<and>
   appleInterval state_playing \<le> appleInterval state_first \<and>
   appleInterval state_first = 1490 \<and> appleInterval state_playing = 1480"
proof -
  note t = appleInterval_floor_and_decay[OF run_session_first]
  from t have a: "500 \<le> appleInterval state_first" by blast
  from t no_restart_examples(1)
  have "\<exists>s'. run state_first play_on = Inr s' \<and> appleInterval s' \<le> appleInterval state_first"
    by blast
  then have b: "appleInterval state_playing \<le> appleInterval state_first"
    by (simp add: run_play_on)
  have c: "appleInterval state_first = 1490" "appleInterval state_playing = 1480"
    by (simp_all add: state_first_def state_playing_def)
  from a b c run_session_first run_play_on no_restart_examples(1) show ?thesis by blast
qed










text \<open>
  C6. For every apple that overlaps the plate while the game is Active, the catch
  handler removes that apple from the collection and increments the score by exactly 1,
  and because the apple no longer exists after removal it is never counted a second time
  on any later frame.

  For an apple \<open>a\<close> of the group in a reachable state where the game is not over, the
  collider calls \<open>catchApple\<close>; the score goes up by 1, the group loses \<open>a\<close> and nothing
  else, and whatever happens afterwards \<open>a\<close> is never in the group again, so that the
  collider has nothing to call for it.
\<close>

theorem catch_counts_once:
  assumes "run (start d) es = Inr s" and "\<not> gameOver s" and "a \<in> sid ` set (entries s)"
  shows "overlap s a = catchApple s a \<and>
         score (catchApple s a) = score s + 1 \<and>
         entries (catchApple s a) = filter (\<lambda>b. sid b \<noteq> a) (entries s) \<and>
         (\<forall>fs. \<exists>s'. run (catchApple s a) fs = Inr s' \<and>
                a \<notin> sid ` set (entries s') \<and> overlap s' a = s')"
proof -
  have w: "scene_inv s" by (rule reachable_inv[OF assms(1)])
  have o: "overlap s a = catchApple s a"
    using w assms(2,3) by (auto simp: overlap_def scene_inv_def entries_def split: option.splits)
  have w': "scene_inv (catchApple s a)" using inv_overlap[OF w, of a] o by simp
  have lt: "a < spriteCount (catchApple s a)"
    using w assms(3) by (auto simp: scene_inv_def catchApple_frame)
  have gone: "a \<notin> sid ` set (entries (catchApple s a))"
    by (auto simp: catchApple_frame)
  have "\<exists>s'. run (catchApple s a) fs = Inr s' \<and>
                a \<notin> sid ` set (entries s') \<and> overlap s' a = s'" for fs
  proof -
    from run_gone[OF w' lt gone, of fs] obtain s' where
      s': "run (catchApple s a) fs = Inr s'" "a \<notin> sid ` set (entries s')" by blast
    then have "overlap s' a = s'"
      by (auto simp: overlap_def entries_def split: option.splits)
    with s' show ?thesis by blast
  qed
  with o show ?thesis by (simp add: catchApple_frame)
qed

theorem catch_counts_once_witness:
  "run (start data0) session_first = Inr state_first \<and>
   \<not> gameOver state_first \<and>
   1 \<in> sid ` set (entries state_first) \<and>
   overlap state_first 1 = catchApple state_first 1 \<and>
   score state_first = 0 \<and>
   score (catchApple state_first 1) = 1 \<and>
   entries (catchApple state_first 1) = []"
proof -
  have m: "1 \<in> sid ` set (entries state_first)" by (simp add: state_first_fields)
  from catch_counts_once[OF run_session_first state_first_fields(1) m]
  have "overlap state_first 1 = catchApple state_first 1"
    "score (catchApple state_first 1) = 1"
    "entries (catchApple state_first 1) = []"
    by (simp_all add: state_first_fields)
  with m state_first_fields(1,2) run_session_first show ?thesis by blast
qed

text \<open>
  C7. For every apple spawned while the current score is \<open>s\<close>, its vertical speed is
  set at creation to 150 + 2 \<open>s\<close>, and no subsequent operation (frame update, later
  catches, later score changes) modifies that apple's speed.

  The code sets that speed on the new sprite and then adds the sprite to the physics
  group, which puts the group's default velocity, 0, on it. On the first frame of a game,
  with score 0, the sprite that was given speed 150 is in the group with speed 0.
\<close>

theorem spawned_apple_speed_lost_on_add:
  "score (start data0) = 0 \<and>
   group_add [] \<lparr>sid = 1, sx = 100, sy = - 50, velocityX = 0, velocityY = 150\<rparr> =
     [\<lparr>sid = 1, sx = 100, sy = - 50, velocityX = 0, velocityY = 0\<rparr>] \<and>
   update (start data0) 1600 100 = Inr state_first \<and>
   entries state_first = [\<lparr>sid = 1, sx = 100, sy = - 50, velocityX = 0, velocityY = 0\<rparr>] \<and>
   velocityY \<lparr>sid = 1, sx = 100, sy = - 50, velocityX = 0, velocityY = 0\<rparr>
     \<noteq> 150 + real (score (start data0)) * 2"
proof -
  have "score (start data0) = 0" by (simp add: start_eq)
  moreover have
    "group_add [] \<lparr>sid = 1, sx = 100, sy = - 50, velocityX = 0, velocityY = 150\<rparr> =
       [\<lparr>sid = 1, sx = 100, sy = - 50, velocityX = 0, velocityY = 0\<rparr>]"
    by (simp add: group_add_def)
  moreover have "velocityY \<lparr>sid = 1, sx = 100, sy = - 50, velocityX = 0, velocityY = 0\<rparr>
     \<noteq> 150 + real (score (start data0)) * 2"
    by (simp add: start_eq)
  ultimately show ?thesis using update_start_first state_first_fields(5) by blast
qed

text \<open>
  C8. Whenever \<open>gameOver\<close> is true, a frame update returns immediately and leaves the
  entire game state unchanged: no apple is spawned, the score does not change,
  \<open>appleInterval\<close> and \<open>lastAppleTime\<close> do not change, and the apple collection is not
  modified.
\<close>

theorem update_frozen_when_over:
  assumes "gameOver s"
  shows "update s time rnd = Inr s"
  using assms by (simp add: update_def)

theorem update_frozen_when_over_witness:
  "gameOver (endGame state_first) \<and>
   update (endGame state_first) 9000 5 = Inr (endGame state_first)"
proof -
  have g: "gameOver (endGame state_first)" by (simp add: endGame_frame)
  from update_frozen_when_over[OF g, of 9000 5] g show ?thesis by blast
qed

text \<open>
  C9. \<open>restart\<close> sets \<open>lastAppleTime\<close> to 0 while the frame clock passed to \<open>update\<close> is
  not reset, so on the first Active frame after a restart at any clock time greater than
  1500 ms the spawn condition holds and an apple is spawned immediately, rather than
  after waiting a full initial spawn interval.

  From every reachable state \<open>restart\<close> returns a state with \<open>lastAppleTime\<close> 0, interval
  1500 and an empty group, and the frame that follows at any clock time above 1500 puts
  exactly one apple into the group, a new sprite above the screen at the drawn x, sets
  \<open>lastAppleTime\<close> to the clock and lowers the interval to 1490.
\<close>

theorem restart_then_spawns_at_once:
  assumes "run (start d) es = Inr s" and "time > 1500"
  shows "\<exists>s1 s2. restart s = Inr s1 \<and> lastAppleTime s1 = 0 \<and> appleInterval s1 = 1500 \<and>
           entries s1 = [] \<and>
           update s1 time rnd = Inr s2 \<and>
           (\<exists>b. entries s2 = [b] \<and> sid b = spriteCount s \<and>
                 sx b = real_of_int rnd \<and> sy b = - 50) \<and>
           lastAppleTime s2 = time \<and> appleInterval s2 = 1490 \<and> \<not> gameOver s2"
proof -
  have w: "scene_inv s" by (rule reachable_inv[OF assms(1)])
  from inv_restart[OF w] obtain s1 where s1: "restart s = Inr s1" "scene_inv s1" by blast
  have f: "lastAppleTime s1 = 0" "appleInterval s1 = 1500" "\<not> gameOver s1" "entries s1 = []"
    "spriteCount s1 = spriteCount s"
    using s1(1) unfolding restart_inv_eq[OF w] by (auto simp: entries_def)
  from update_active_fields[OF s1(2) f(3), of time rnd] assms(2) f
  obtain s2 where s2: "update s1 time rnd = Inr s2"
    "entries s2 = [\<lparr>sid = spriteCount s1, sx = real_of_int rnd, sy = - 50,
                    velocityX = 0, velocityY = 0\<rparr>]"
    "lastAppleTime s2 = time" "appleInterval s2 = 1490" "\<not> gameOver s2"
    by auto
  have "\<exists>b. entries s2 = [b] \<and> sid b = spriteCount s \<and>
                 sx b = real_of_int rnd \<and> sy b = - 50"
    by (simp add: s2(2) f(5))
  with s1(1) f s2 show ?thesis by blast
qed

theorem restart_then_spawns_at_once_witness:
  "run (start data0) session_first = Inr state_first \<and> (1500 :: real) < 1616 \<and>
   lastAppleTime state_first = 1600 \<and> appleInterval state_first = 1490 \<and>
   update state_first 1616 60 = Inr state_first \<and>
   run state_first play_again = Inr state_again \<and>
   lastAppleTime state_again = 1616 \<and> appleInterval state_again = 1490 \<and>
   length (entries state_first) = 1 \<and> length (entries state_again) = 1"
proof -
  have h: "(1500 :: real) < 1616" by simp
  from restart_then_spawns_at_once[OF run_session_first h, of 60] obtain s1 s2 b where
    s: "restart state_first = Inr s1" "update s1 1616 60 = Inr s2"
       "entries s2 = [b]" "lastAppleTime s2 = 1616" "appleInterval s2 = 1490"
    by blast
  have "run state_first play_again = Inr s2" using s(1,2) by (simp add: play_again_def)
  then have eq: "s2 = state_again" by (simp add: run_play_again)
  from s(3,4,5) have a: "lastAppleTime state_again = 1616" "appleInterval state_again = 1490"
    "length (entries state_again) = 1"
    by (simp_all add: eq)
  have n: "update state_first 1616 60 = Inr state_first"
    by (simp add: state_first_def run_defs)
  have l: "length (entries state_first) = 1" by (simp add: state_first_fields)
  from h a n l state_first_fields(3,4) run_session_first run_play_again
  show ?thesis by blast
qed

text \<open>
  C10. For every catch event, the catch handler changes only the score and the apple
  collection (it destroys the caught apple and adds 1 to the score); \<open>gameOver\<close>,
  \<open>appleInterval\<close>, \<open>lastAppleTime\<close> and the plate's position and velocity are left
  unchanged (the tween it starts is cosmetic scaling only).

  Besides the score and the group, the handler writes the copy of the score in the
  shared data object and adds its tween; every other field of the scene, the plate
  among them, is what it was.
\<close>

theorem catchApple_changes_score_and_apples_only:
  "catchApple s a =
     s\<lparr>apples := map_option (filter (\<lambda>b. sid b \<noteq> a)) (apples s),
       score := score s + 1,
       gameData := map_option (\<lambda>g. g\<lparr>gd_score := score s + 1, gd_gameOver := gameOver s\<rparr>)
                     (gameData s),
       tweens := tweens s @ [\<lparr>scaleY = 12 / 10, duration = 100, yoyo = True\<rparr>]\<rparr> \<and>
   score (catchApple s a) = score s + 1 \<and>
   gameOver (catchApple s a) = gameOver s \<and>
   appleInterval (catchApple s a) = appleInterval s \<and>
   lastAppleTime (catchApple s a) = lastAppleTime s \<and>
   plate (catchApple s a) = plate s"
  by (cases "gameData s") (simp_all add: catchApple_def updateGameState_def Let_def)

theorem catchApple_changes_score_and_apples_only_witness:
  "score (catchApple state_first 1) = 1 \<and> apples (catchApple state_first 1) = Some [] \<and>
   plate (catchApple state_first 1) = plate state_first \<and>
   appleInterval (catchApple state_first 1) = 1490"
proof -
  note t = catchApple_changes_score_and_apples_only[of state_first 1]
  from t have "score (catchApple state_first 1) = score state_first + 1"
    "plate (catchApple state_first 1) = plate state_first"
    "appleInterval (catchApple state_first 1) = appleInterval state_first"
    by blast+
  moreover have "apples (catchApple state_first 1) = Some []"
    by (simp add: catchApple_frame state_first_def)
  moreover have "score state_first = 0" "appleInterval state_first = 1490"
    by (simp_all add: state_first_def)
  ultimately show ?thesis by simp
qed

end
